theory Spec2Isabelle
  imports Main "HOL-Library.AList"
begin

section \<open>Cell values of a worksheet\<close>

text \<open>
  The three scripts (\<^verbatim>\<open>analyze_excel.py\<close>, \<^verbatim>\<open>analyze_excel_v2.py\<close>,
  \<^verbatim>\<open>analyze_excel_summary.py\<close>) inspect \<^verbatim>\<open>cell.value\<close> by run-time type tests. A cell value
  is modelled by the Python kinds the tests tell apart. A text is a list of characters, one
  \<^typ>\<open>char\<close> per code point. A float is carried by its \<^verbatim>\<open>repr\<close> (which \<^verbatim>\<open>str\<close> returns
  and which determines the float). A value of any other class carries what the scripts observe
  of it: the name of its class, its \<^verbatim>\<open>str\<close> and its truth value.
\<close>

datatype temporal =
    DateTime nat nat nat nat nat nat nat
  | Date nat nat nat
  | Time nat nat nat nat

datatype cell =
    CNone
  | CStr string
  | CBool bool
  | CInt int
  | CFloat string
  | CTemporal temporal
  | COther string string bool

subsection \<open>Run-time type tests\<close>

fun isinstance_str :: "cell \<Rightarrow> bool" where
  "isinstance_str (CStr s) = True"
| "isinstance_str c = False"

text \<open>\<^verbatim>\<open>bool\<close> is a subclass of \<^verbatim>\<open>int\<close>, so \<^verbatim>\<open>isinstance(True, int)\<close> holds.\<close>

fun isinstance_int :: "cell \<Rightarrow> bool" where
  "isinstance_int (CInt i) = True"
| "isinstance_int (CBool b) = True"
| "isinstance_int c = False"

fun isinstance_float :: "cell \<Rightarrow> bool" where
  "isinstance_float (CFloat r) = True"
| "isinstance_float c = False"

text \<open>\<^verbatim>\<open>datetime\<close>, \<^verbatim>\<open>date\<close> and \<^verbatim>\<open>time\<close> objects have a \<^verbatim>\<open>strftime\<close> method.\<close>

fun has_strftime :: "cell \<Rightarrow> bool" where
  "has_strftime (CTemporal t) = True"
| "has_strftime c = False"

text \<open>\<^verbatim>\<open>type(value).__name__\<close>\<close>

fun type_name :: "cell \<Rightarrow> string" where
  "type_name CNone = ''NoneType''"
| "type_name (CStr s) = ''str''"
| "type_name (CBool b) = ''bool''"
| "type_name (CInt i) = ''int''"
| "type_name (CFloat r) = ''float''"
| "type_name (CTemporal (DateTime y mo d h mi s us)) = ''datetime''"
| "type_name (CTemporal (Date y mo d)) = ''date''"
| "type_name (CTemporal (Time h mi s us)) = ''time''"
| "type_name (COther k r t) = k"

text \<open>The truth value of a cell value, as \<^verbatim>\<open>if value:\<close> tests it.\<close>

fun truthy :: "cell \<Rightarrow> bool" where
  "truthy CNone = False"
| "truthy (CStr s) = (s \<noteq> [])"
| "truthy (CBool b) = b"
| "truthy (CInt i) = (i \<noteq> 0)"
| "truthy (CFloat r) = (r \<noteq> ''0.0'' \<and> r \<noteq> ''-0.0'')"
| "truthy (CTemporal t) = True"
| "truthy (COther k r t) = t"

subsection \<open>Rendering values as text\<close>

definition digit_char :: "nat \<Rightarrow> char" where
  "digit_char d = ''0123456789'' ! d"

fun digits :: "nat \<Rightarrow> string" where
  "digits n = (if n < 10 then [digit_char n] else digits (n div 10) @ [digit_char (n mod 10)])"

declare digits.simps [simp del]

definition str_int :: "int \<Rightarrow> string" where
  "str_int i = (if i < 0 then CHR ''-'' # digits (nat (- i)) else digits (nat i))"

text \<open>
  A number zero-padded to a width, as \<^verbatim>\<open>%02d\<close>, the fields of an ISO date and the month,
  day and time fields of \<^verbatim>\<open>strftime\<close> are.
\<close>

definition pad :: "nat \<Rightarrow> nat \<Rightarrow> string" where
  "pad w n = replicate (w - length (digits n)) (CHR ''0'') @ digits n"

definition fmt_date :: "nat \<Rightarrow> nat \<Rightarrow> nat \<Rightarrow> string" where
  "fmt_date y mo d = pad 4 y @ ''-'' @ pad 2 mo @ ''-'' @ pad 2 d"

definition fmt_time :: "nat \<Rightarrow> nat \<Rightarrow> nat \<Rightarrow> string" where
  "fmt_time h mi s = pad 2 h @ '':'' @ pad 2 mi @ '':'' @ pad 2 s"

definition fmt_micro :: "nat \<Rightarrow> string" where
  "fmt_micro us = (if us = 0 then [] else CHR ''.'' # pad 6 us)"

text \<open>
  The field \<^verbatim>\<open>%Y\<close> of \<^verbatim>\<open>strftime\<close> is the year as the C library prints it: the decimal
  digits of the year with no padding, so the year 999 is rendered "999". From the year 1000 on
  this is the four-digit form. (\<^verbatim>\<open>str\<close> of a date is its ISO form, which pads the year.)
\<close>

definition year_text :: "nat \<Rightarrow> string" where
  "year_text y = digits y"

definition strf_date :: "nat \<Rightarrow> nat \<Rightarrow> nat \<Rightarrow> string" where
  "strf_date y mo d = year_text y @ ''-'' @ pad 2 mo @ ''-'' @ pad 2 d"

text \<open>
  \<^verbatim>\<open>value.strftime('%Y-%m-%d')\<close>: a \<^verbatim>\<open>time\<close> object formats its date fields as 1900-01-01.
\<close>

fun strftime_ymd :: "temporal \<Rightarrow> string" where
  "strftime_ymd (DateTime y mo d h mi s us) = strf_date y mo d"
| "strftime_ymd (Date y mo d) = strf_date y mo d"
| "strftime_ymd (Time h mi s us) = strf_date 1900 1 1"

text \<open>
  \<^verbatim>\<open>value.strftime('%Y-%m-%d %H:%M:%S')\<close>: a \<^verbatim>\<open>date\<close> object formats its time fields as
  00:00:00.
\<close>

fun strftime_ymd_hms :: "temporal \<Rightarrow> string" where
  "strftime_ymd_hms (DateTime y mo d h mi s us) = strf_date y mo d @ '' '' @ fmt_time h mi s"
| "strftime_ymd_hms (Date y mo d) = strf_date y mo d @ '' '' @ fmt_time 0 0 0"
| "strftime_ymd_hms (Time h mi s us) = strf_date 1900 1 1 @ '' '' @ fmt_time h mi s"

text \<open>\<^verbatim>\<open>str(value)\<close>\<close>

fun py_str :: "cell \<Rightarrow> string" where
  "py_str CNone = ''None''"
| "py_str (CStr s) = s"
| "py_str (CBool b) = (if b then ''True'' else ''False'')"
| "py_str (CInt i) = str_int i"
| "py_str (CFloat r) = r"
| "py_str (CTemporal (DateTime y mo d h mi s us)) =
     fmt_date y mo d @ '' '' @ fmt_time h mi s @ fmt_micro us"
| "py_str (CTemporal (Date y mo d)) = fmt_date y mo d"
| "py_str (CTemporal (Time h mi s us)) = fmt_time h mi s @ fmt_micro us"
| "py_str (COther k r t) = r"

text \<open>
  \<^verbatim>\<open>str.strip()\<close> removes the leading and trailing whitespace characters: tab, line feed,
  vertical tab, form feed, carriage return, the separators 0x1C to 0x1F, space, and among the
  code points below 256 also 0x85 and 0xA0.
\<close>

definition is_space :: "char \<Rightarrow> bool" where
  "is_space c = (of_char c \<in> {9, 10, 11, 12, 13, 28, 29, 30, 31, 32, 133, 160 :: nat})"

definition strip :: "string \<Rightarrow> string" where
  "strip s = rev (dropWhile is_space (rev (dropWhile is_space s)))"

text \<open>\<^verbatim>\<open>val.count('\n')\<close>\<close>

definition count_newlines :: "string \<Rightarrow> nat" where
  "count_newlines s = length (filter (\<lambda>c. c = CHR 0x0A) s)"

section \<open>Type inference for a cell value\<close>

text \<open>\<^verbatim>\<open>get_type_name\<close> of \<^verbatim>\<open>analyze_excel_summary.py\<close>.\<close>

definition get_type_name :: "cell \<Rightarrow> string" where
  "get_type_name v =
     (if v = CNone then ''empty''
      else if isinstance_str v then ''string''
      else if isinstance_int v then ''integer''
      else if isinstance_float v then ''number''
      else if has_strftime v then ''date/datetime''
      else type_name v)"

text \<open>
  The type test of the record extraction of \<^verbatim>\<open>analyze_excel_v2.py\<close>, which yields the pair of
  \<^verbatim>\<open>dtype\<close> and \<^verbatim>\<open>display_value\<close>. The display value is the value itself, or a text.
\<close>

definition classify :: "cell \<Rightarrow> string \<times> cell" where
  "classify v =
     (if v = CNone then (''empty'', CNone)
      else if isinstance_str v then (''string'', v)
      else if isinstance_int v then (''integer'', v)
      else if isinstance_float v then (''number'', v)
      else (case v of
              CTemporal t \<Rightarrow> (''date/datetime'', CStr (strftime_ymd_hms t))
            | _ \<Rightarrow> (type_name v, CStr (py_str v))))"

section \<open>Worksheets\<close>

text \<open>
  A worksheet is the rectangular grid of its cell values, row by row. A worksheet with no cell
  reports one row and one column, and \<^verbatim>\<open>iter_rows\<close> yields a row of empty cells for a row
  number beyond the last row.
\<close>

type_synonym grid = "cell list list"

definition max_row :: "grid \<Rightarrow> nat" where
  "max_row g = (if g = [] then 1 else length g)"

definition max_column :: "grid \<Rightarrow> nat" where
  "max_column g = (if g = [] then 1 else length (hd g))"

text \<open>\<^verbatim>\<open>list(ws.iter_rows(min_row=i, max_row=i))[0]\<close>, as the values of its cells.\<close>

definition ws_row :: "grid \<Rightarrow> nat \<Rightarrow> cell list" where
  "ws_row g i = (if 1 \<le> i \<and> i \<le> length g then g ! (i - 1) else replicate (max_column g) CNone)"

text \<open>
  \<^verbatim>\<open>get_column_letter\<close> of \<^verbatim>\<open>openpyxl.utils\<close>: the bijective base-26 numeral of a column
  number from 1 on, most significant letter first.
\<close>

definition letter :: "nat \<Rightarrow> char" where
  "letter r = ''ABCDEFGHIJKLMNOPQRSTUVWXYZ'' ! r"

function get_column_letter :: "nat \<Rightarrow> string" where
  "get_column_letter n =
     (if n = 0 then [] else get_column_letter ((n - 1) div 26) @ [letter ((n - 1) mod 26)])"
  by pat_completeness auto
termination
proof (relation "measure (\<lambda>n. n)")
  show "wf (measure (\<lambda>n. n))" by simp
next
  fix n :: nat
  assume "n \<noteq> 0"
  moreover have "(n - 1) div 26 \<le> n - 1" by (rule div_le_dividend)
  ultimately have "(n - 1) div 26 < n" by linarith
  then show "((n - 1) div 26, n) \<in> measure (\<lambda>n. n)" by simp
qed

declare get_column_letter.simps [simp del]

section \<open>Header detection\<close>

subsection \<open>The best-qualifying detector of \<^verbatim>\<open>analyze_excel_v2.py\<close>\<close>

record first_row =
  f_row_num :: nat
  f_values :: "string option list"

text \<open>
  The entry of \<^verbatim>\<open>row_values\<close> for a cell: \<^verbatim>\<open>None\<close> stays, a value with \<^verbatim>\<open>strftime\<close> is
  formatted as a date, any other value is passed to \<^verbatim>\<open>str\<close>.
\<close>

definition row_value :: "cell \<Rightarrow> string option" where
  "row_value v =
     (if v = CNone then None
      else (case v of CTemporal t \<Rightarrow> Some (strftime_ymd t) | _ \<Rightarrow> Some (py_str v)))"

definition first_20_rows :: "grid \<Rightarrow> first_row list" where
  "first_20_rows g =
     map (\<lambda>i. \<lparr>f_row_num = i, f_values = map row_value (ws_row g i)\<rparr>)
       [1..<min 21 (max_row g + 1)]"

text \<open>
  \<^verbatim>\<open>v is not None and (v.strip() if isinstance(v, str) else True)\<close>, on the entries of
  \<^verbatim>\<open>row_values\<close>, each of which is \<^verbatim>\<open>None\<close> or a text.
\<close>

definition counts_v2 :: "string option \<Rightarrow> bool" where
  "counts_v2 v = (case v of None \<Rightarrow> False | Some s \<Rightarrow> strip s \<noteq> [])"

definition non_none_count :: "string option list \<Rightarrow> nat" where
  "non_none_count row = length (filter counts_v2 row)"

text \<open>One turn of the detection loop; the state is the pair of \<^verbatim>\<open>header_row\<close> and
  \<^verbatim>\<open>max_headers\<close>.\<close>

definition detect_step :: "first_row list \<Rightarrow> nat \<Rightarrow> nat option \<times> nat \<Rightarrow> nat option \<times> nat" where
  "detect_step rows i st =
     (let row = (if i \<le> length rows then f_values (rows ! (i - 1)) else []);
          c = non_none_count row
      in if c > snd st \<and> c \<ge> 3 then (Some i, c) else st)"

definition detect_header_v2 :: "grid \<Rightarrow> nat option" where
  "detect_header_v2 g =
     fst (fold (detect_step (first_20_rows g)) [1..<min 15 (max_row g + 1)] (None, 0))"

text \<open>\<^verbatim>\<open>if header_row is None: header_row = 1\<close>\<close>

definition header_row_or_1 :: "nat option \<Rightarrow> nat" where
  "header_row_or_1 hr = (case hr of None \<Rightarrow> 1 | Some i \<Rightarrow> i)"

subsection \<open>The first-qualifying detector of \<^verbatim>\<open>analyze_excel.py\<close>\<close>

text \<open>\<^verbatim>\<open>sum(1 for v in row_values if v is not None and isinstance(v, str) and v.strip())\<close>\<close>

definition counts_simple :: "cell \<Rightarrow> bool" where
  "counts_simple v = (v \<noteq> CNone \<and> isinstance_str v \<and> strip (py_str v) \<noteq> [])"

definition string_count :: "cell list \<Rightarrow> nat" where
  "string_count row_values = length (filter counts_simple row_values)"

definition simple_step :: "grid \<Rightarrow> nat \<Rightarrow> nat option \<Rightarrow> nat option" where
  "simple_step g i header_row =
     (let row_values = ws_row g i
      in if header_row = None \<and> list_ex truthy row_values
         then (if string_count row_values \<ge> 3
               then (if header_row = None then Some i else header_row)
               else header_row)
         else header_row)"

text \<open>The loop runs over \<^verbatim>\<open>enumerate(list(ws.iter_rows(max_row=20)), start=1)\<close>.\<close>

definition detect_header_simple :: "grid \<Rightarrow> nat option" where
  "detect_header_simple g = fold (simple_step g) [1..<21] None"

subsection \<open>The detector of \<^verbatim>\<open>analyze_excel_summary.py\<close>, with \<^verbatim>\<open>looks_like_header\<close>\<close>

text \<open>\<^verbatim>\<open>sum(1 for cell in row if cell.value and str(cell.value).strip())\<close>\<close>

definition counts_summary :: "cell \<Rightarrow> bool" where
  "counts_summary v = (truthy v \<and> strip (py_str v) \<noteq> [])"

definition non_empty :: "cell list \<Rightarrow> nat" where
  "non_empty row = length (filter counts_summary row)"

definition looks_step :: "cell \<Rightarrow> bool \<Rightarrow> bool" where
  "looks_step v looks =
     (if truthy v
      then (let val = strip (py_str v)
            in if length val > 100 \<or> count_newlines val > 2 then False else looks)
      else looks)"

definition looks_like_header :: "cell list \<Rightarrow> bool" where
  "looks_like_header row = fold looks_step row True"

definition summary_step :: "grid \<Rightarrow> nat \<Rightarrow> nat option \<Rightarrow> nat option" where
  "summary_step g i header_row =
     (let row = ws_row g i
      in if non_empty row \<ge> 3
         then (if looks_like_header row \<and> non_empty row \<ge> 3
               then (if header_row = None then Some i else header_row)
               else header_row)
         else header_row)"

definition detect_header_summary :: "grid \<Rightarrow> nat option" where
  "detect_header_summary g = fold (summary_step g) [1..<min 15 (max_row g + 1)] None"

section \<open>Header fields and typed records\<close>

record header_entry =
  h_column :: string
  h_name :: string
  h_index :: nat

record data_entry =
  e_header :: string
  e_value :: cell
  e_type :: string

record sample_row =
  s_row_num :: nat
  s_data :: "(string \<times> data_entry) list"

text \<open>
  The loop over \<^verbatim>\<open>enumerate(header_cells)\<close>: a header is appended when
  \<^verbatim>\<open>header_value\<close> (the cell value, or the empty text for \<^verbatim>\<open>None\<close>) is true.
\<close>

fun header_loop :: "nat \<Rightarrow> cell list \<Rightarrow> header_entry list" where
  "header_loop idx [] = []"
| "header_loop idx (c # cs) =
     (let header_value = (if c \<noteq> CNone then c else CStr [])
      in (if truthy header_value
          then [\<lparr>h_column = get_column_letter (idx + 1), h_name = py_str header_value,
                  h_index = idx\<rparr>]
          else []) @ header_loop (Suc idx) cs)"

definition header_fields :: "cell list \<Rightarrow> header_entry list" where
  "header_fields header_cells = header_loop 0 header_cells"

text \<open>The search of \<^verbatim>\<open>result['headers']\<close> for the header of column \<^verbatim>\<open>idx\<close>.\<close>

definition find_header_name :: "header_entry list \<Rightarrow> nat \<Rightarrow> string option" where
  "find_header_name hs idx = map_option h_name (find (\<lambda>h. h_index h = idx) hs)"

text \<open>
  One cell of a data row: the entry is stored under the column letter when a header name was
  found and is not the empty text. The dictionary \<^verbatim>\<open>row_dict\<close> is an association list in
  insertion order.
\<close>

definition row_step ::
  "header_entry list \<Rightarrow> nat \<Rightarrow> cell \<Rightarrow> (string \<times> data_entry) list \<Rightarrow> (string \<times> data_entry) list"
where
  "row_step hs idx v row_dict =
     (case find_header_name hs idx of
        None \<Rightarrow> row_dict
      | Some header_name \<Rightarrow>
          if header_name \<noteq> []
          then AList.update (get_column_letter (idx + 1))
                 \<lparr>e_header = header_name, e_value = snd (classify v), e_type = fst (classify v)\<rparr>
                 row_dict
          else row_dict)"

fun row_loop ::
  "header_entry list \<Rightarrow> nat \<Rightarrow> cell list \<Rightarrow> (string \<times> data_entry) list \<Rightarrow> (string \<times> data_entry) list"
where
  "row_loop hs idx [] row_dict = row_dict"
| "row_loop hs idx (v # vs) row_dict = row_loop hs (Suc idx) vs (row_step hs idx v row_dict)"

definition extract_record :: "header_entry list \<Rightarrow> cell list \<Rightarrow> (string \<times> data_entry) list" where
  "extract_record hs row_data = row_loop hs 0 row_data []"

text \<open>The sample rows: up to three rows after the header row.\<close>

definition sample_rows :: "grid \<Rightarrow> nat \<Rightarrow> header_entry list \<Rightarrow> sample_row list" where
  "sample_rows g header_row hs =
     map (\<lambda>i. \<lparr>s_row_num = i, s_data = extract_record hs (ws_row g i)\<rparr>)
       [header_row + 1..<min (header_row + 4) (max_row g + 1)]"

section \<open>The analysis of one workbook and the batch\<close>

text \<open>
  What a path holds: nothing, a file that \<^verbatim>\<open>load_workbook\<close> fails on (with the class name
  and the message of the exception), or a workbook, of which the scripts read the active sheet.
  The active sheet of a workbook is a worksheet or a chart sheet; a chart sheet has a title and
  no \<^verbatim>\<open>max_row\<close>, so reading it raises \<^verbatim>\<open>AttributeError\<close>.
\<close>

datatype sheet = Worksheet string grid | Chartsheet string

datatype file_state = Missing | Unreadable string string | Workbook sheet

datatype io_event = LoadWorkbook string | CloseWorkbook string

record result =
  r_name :: string
  r_filepath :: string
  r_exists :: bool
  r_error :: "string option"
  r_sheet_name :: "string option"
  r_total_rows :: nat
  r_total_columns :: nat
  r_header_row :: "nat option"
  r_headers :: "header_entry list"
  r_first_20_rows :: "first_row list"
  r_sample_data :: "sample_row list"

definition initial_result :: "string \<Rightarrow> string \<Rightarrow> result" where
  "initial_result filepath name =
     \<lparr>r_name = name, r_filepath = filepath, r_exists = False, r_error = None,
      r_sheet_name = None, r_total_rows = 0, r_total_columns = 0, r_header_row = None,
      r_headers = [], r_first_20_rows = [], r_sample_data = []\<rparr>"

text \<open>The body of the \<^verbatim>\<open>try\<close> block of \<^verbatim>\<open>analyze_excel\<close> once the active sheet is a worksheet.\<close>

definition analyze_sheet :: "result \<Rightarrow> string \<Rightarrow> grid \<Rightarrow> result" where
  "analyze_sheet res title g =
     (let header_row = header_row_or_1 (detect_header_v2 g);
          hs = header_fields (ws_row g header_row)
      in res\<lparr>r_sheet_name := Some title, r_total_rows := max_row g,
             r_total_columns := max_column g, r_first_20_rows := first_20_rows g,
             r_header_row := Some header_row, r_headers := hs,
             r_sample_data := sample_rows g header_row hs\<rparr>)"

text \<open>
  \<^verbatim>\<open>analyze_excel\<close> of \<^verbatim>\<open>analyze_excel_v2.py\<close>, with the file system as a parameter. It
  returns the result record and the trace of the workbook handle: \<^verbatim>\<open>wb.close()\<close> is the last
  statement of the \<^verbatim>\<open>try\<close> block, and the \<^verbatim>\<open>except\<close> clause only stores the error text.
\<close>

definition analyze_excel :: "(string \<Rightarrow> file_state) \<Rightarrow> string \<Rightarrow> string \<Rightarrow> result \<times> io_event list" where
  "analyze_excel fs filepath name =
     (let res = initial_result filepath name
      in case fs filepath of
           Missing \<Rightarrow> (res\<lparr>r_error := Some ''File not found''\<rparr>, [])
         | Unreadable exn msg \<Rightarrow>
             (res\<lparr>r_exists := True, r_error := Some (exn @ '': '' @ msg)\<rparr>, [])
         | Workbook (Chartsheet title) \<Rightarrow>
             (res\<lparr>r_exists := True, r_sheet_name := Some title,
                   r_error := Some (''AttributeError: '' @
                     [CHR 0x27] @ ''Chartsheet'' @ [CHR 0x27] @ '' object has no attribute '' @
                     [CHR 0x27] @ ''max_row'' @ [CHR 0x27])\<rparr>,
              [LoadWorkbook filepath])
         | Workbook (Worksheet title g) \<Rightarrow>
             (analyze_sheet (res\<lparr>r_exists := True\<rparr>) title g,
              [LoadWorkbook filepath, CloseWorkbook filepath]))"


section \<open>Notions used to state the properties\<close>

text \<open>
  The two loop shapes of the detectors: keep the first row with a strictly greater count of at
  least 3, and keep the first row that qualifies.
\<close>

definition best_step :: "(nat \<Rightarrow> nat) \<Rightarrow> nat \<Rightarrow> nat option \<times> nat \<Rightarrow> nat option \<times> nat" where
  "best_step f i st = (if f i > snd st \<and> f i \<ge> 3 then (Some i, f i) else st)"

definition first_step :: "(nat \<Rightarrow> bool) \<Rightarrow> nat \<Rightarrow> nat option \<Rightarrow> nat option" where
  "first_step q i hr = (if hr = None \<and> q i then Some i else hr)"

text \<open>The count that the detector of \<^verbatim>\<open>analyze_excel_v2.py\<close> computes for row \<open>i\<close>.\<close>

definition row_count_v2 :: "grid \<Rightarrow> nat \<Rightarrow> nat" where
  "row_count_v2 g i = non_none_count (map row_value (ws_row g i))"

text \<open>The tests under which the other two detectors take row \<open>i\<close>.\<close>

definition qualifies_simple :: "grid \<Rightarrow> nat \<Rightarrow> bool" where
  "qualifies_simple g i = (list_ex truthy (ws_row g i) \<and> 3 \<le> string_count (ws_row g i))"

definition qualifies_summary :: "grid \<Rightarrow> nat \<Rightarrow> bool" where
  "qualifies_summary g i = (3 \<le> non_empty (ws_row g i) \<and> looks_like_header (ws_row g i))"

text \<open>
  A meaningful cell as the specification words it: not absent and, when textual, not blank
  after trimming.
\<close>

definition meaningful :: "cell \<Rightarrow> bool" where
  "meaningful c = (c \<noteq> CNone \<and> (if isinstance_str c then strip (py_str c) \<noteq> [] else True))"

definition meaningful_count :: "cell list \<Rightarrow> nat" where
  "meaningful_count row = length (filter meaningful row)"

text \<open>
  Two facts about the values a workbook holds that the datatype leaves open: the \<^verbatim>\<open>repr\<close> of
  a float and the \<^verbatim>\<open>str\<close> of a value of another class are not blank, and no other class is
  named like the booleans.
\<close>

definition renders_nonblank :: "cell \<Rightarrow> bool" where
  "renders_nonblank c =
     (case c of CFloat r \<Rightarrow> strip r \<noteq> [] | COther k r t \<Rightarrow> strip r \<noteq> [] | _ \<Rightarrow> True)"

definition foreign_bool :: "cell \<Rightarrow> bool" where
  "foreign_bool c = (case c of COther k r t \<Rightarrow> k = ''bool'' \<or> k = ''boolean'' | _ \<Rightarrow> False)"

subsection \<open>Example worksheets\<close>

definition scenario_grid :: grid where
  "scenario_grid =
     [[CStr [], CStr [], CStr []],
      [CStr ''Invoice #'', CStr ''Date'', CStr ''Amount''],
      [CStr ''INV-001'', CStr ''2024-01-15'', CFloat ''120.5'']]"

definition blank_row :: "cell list" where
  "blank_row = [CNone, CNone, CNone]"

definition text_row :: "cell list" where
  "text_row = [CStr ''Name'', CStr ''Date'', CStr ''Amount'']"

definition grid_row14 :: grid where
  "grid_row14 = replicate 13 blank_row @ [text_row]"

definition grid_row15 :: grid where
  "grid_row15 = replicate 14 blank_row @ [text_row]"

definition grid_row20 :: grid where
  "grid_row20 = replicate 19 blank_row @ [text_row]"

definition tie_grid :: grid where
  "tie_grid =
     [[CStr ''a'', CStr ''b'', CStr ''c'', CNone],
      [CStr ''a'', CStr ''b'', CInt 3, CBool True],
      [CStr ''a'', CStr ''b'', CStr ''c'', CStr ''d'']]"


definition bool_grid :: grid where
  "bool_grid =
     [[CStr ''Name'', CStr ''Paid'', CStr ''Late'', CStr ''Spent''],
      [CStr ''a'', CBool True, CBool False, COther ''timedelta'' ''1:30:00'' True]]"

definition numeric_grid :: grid where
  "numeric_grid = [[CInt 1, CInt 2, CInt 3]]"

definition sparse_grid :: grid where
  "sparse_grid = [[CStr ''Total'', CInt 7, CNone], [CStr ''a'', CStr '' '', CNone]]"

definition mixed_row :: "cell list" where
  "mixed_row = [CStr ''a'', CInt 1, CFloat ''2.5'', CNone, CStr '' '', CBool False]"


definition long_text :: string where
  "long_text = replicate 101 (CHR ''x'')"

definition long_cell_grid :: grid where
  "long_cell_grid = [[CStr ''a'', CStr ''b'', CStr long_text], text_row]"

definition demo_fs :: "string \<Rightarrow> file_state" where
  "demo_fs p =
     (if p = ''a.xlsx'' then Workbook (Worksheet ''Sheet1'' scenario_grid)
      else if p = ''c.xlsx'' then Workbook (Worksheet ''Data'' tie_grid)
      else if p = ''bad.xlsx'' then Unreadable ''BadZipFile'' ''File is not a zip file''
      else if p = ''chart.xlsx'' then Workbook (Chartsheet ''Chart1'')
      else Missing)"


section \<open>Type inference: the tags and the rendering of dates\<close>







lemma strftime_small_years:
  "strftime_ymd_hms (DateTime 999 1 1 0 0 0 0) = ''999-01-01 00:00:00''"
  "strftime_ymd_hms (DateTime 5 3 4 6 7 8 0) = ''5-03-04 06:07:08''"
  "strftime_ymd (DateTime 999 1 1 0 0 0 0) = ''999-01-01''"
  by code_simp+




section \<open>The workbook handle\<close>

text \<open>
  Claim C9 at a failing input: a workbook that opens and whose active sheet is a chart sheet.
  Reading \<^verbatim>\<open>ws.max_row\<close> raises inside the \<^verbatim>\<open>try\<close> block, the \<^verbatim>\<open>except\<close> clause stores the
  error, and \<^verbatim>\<open>wb.close()\<close> is never reached: the trace holds the load and no close. On a
  worksheet the handle is closed.
\<close>

theorem C9_handle_left_open:
  "snd (analyze_excel demo_fs ''chart.xlsx'' ''Chart'') = [LoadWorkbook ''chart.xlsx''] \<and>
   r_error (fst (analyze_excel demo_fs ''chart.xlsx'' ''Chart'')) \<noteq> None \<and>
   snd (analyze_excel demo_fs ''a.xlsx'' ''A'') = [LoadWorkbook ''a.xlsx'', CloseWorkbook ''a.xlsx'']"
  by (simp add: analyze_excel_def demo_fs_def)


section \<open>Loops, texts and column letters: general facts\<close>

lemma best_fold_inv:
  "a \<le> b \<Longrightarrow>
   (case fold (best_step f) [a..<b] (None, 0) of
     (None, mx) \<Rightarrow> mx = 0 \<and> (\<forall>j. a \<le> j \<and> j < b \<longrightarrow> f j < 3)
   | (Some i, mx) \<Rightarrow> a \<le> i \<and> i < b \<and> mx = f i \<and> 3 \<le> f i \<and>
        (\<forall>j. a \<le> j \<and> j < b \<longrightarrow> f j \<le> f i) \<and> (\<forall>j. a \<le> j \<and> j < i \<longrightarrow> f j < f i))"
proof (induction b)
  case 0
  then show ?case by simp
next
  case (Suc b)
  show ?case
  proof (cases "a = Suc b")
    case True
    then show ?thesis by auto
  next
    case False
    with Suc.prems have ab: "a \<le> b" by simp
    obtain hr mx where st: "fold (best_step f) [a..<b] (None, 0) = (hr, mx)"
      by (cases "fold (best_step f) [a..<b] (None, 0)")
    have unfold: "fold (best_step f) [a..<Suc b] (None, 0) = best_step f b (hr, mx)"
      using ab st by simp
    note ih = Suc.IH [OF ab, unfolded st]
    show ?thesis
    proof (cases hr)
      case None
      with ih have mx: "mx = 0" and low: "\<forall>j. a \<le> j \<and> j < b \<longrightarrow> f j < 3" by simp_all
      show ?thesis
      proof (cases "3 \<le> f b")
        case True
        then have "best_step f b (hr, mx) = (Some b, f b)"
          using mx by (simp add: best_step_def)
        moreover have "\<forall>j. a \<le> j \<and> j < Suc b \<longrightarrow> f j \<le> f b"
          using low True by (metis less_Suc_eq less_imp_le_nat less_le_trans order_refl)
        moreover have "\<forall>j. a \<le> j \<and> j < b \<longrightarrow> f j < f b"
          using low True by (meson less_le_trans)
        ultimately show ?thesis using unfold ab True by simp
      next
        case False
        then have "best_step f b (hr, mx) = (None, 0)"
          using mx None by (simp add: best_step_def)
        moreover have "\<forall>j. a \<le> j \<and> j < Suc b \<longrightarrow> f j < 3"
          using low False by (metis less_Suc_eq not_le)
        ultimately show ?thesis using unfold by simp
      qed
    next
      case (Some i)
      with ih have i: "a \<le> i" "i < b" "mx = f i" "3 \<le> f i"
        and mxall: "\<forall>j. a \<le> j \<and> j < b \<longrightarrow> f j \<le> f i"
        and before: "\<forall>j. a \<le> j \<and> j < i \<longrightarrow> f j < f i" by simp_all
      show ?thesis
      proof (cases "f i < f b")
        case True
        then have "best_step f b (hr, mx) = (Some b, f b)"
          using i by (simp add: best_step_def)
        moreover have "\<forall>j. a \<le> j \<and> j < Suc b \<longrightarrow> f j \<le> f b"
          using mxall True by (metis less_Suc_eq less_imp_le_nat le_less_trans order_refl)
        moreover have "\<forall>j. a \<le> j \<and> j < b \<longrightarrow> f j < f b"
          using mxall True by (meson le_less_trans)
        moreover have "3 \<le> f b" using i True by linarith
        ultimately show ?thesis using unfold ab by simp
      next
        case False
        then have "best_step f b (hr, mx) = (Some i, f i)"
          using i Some by (simp add: best_step_def)
        moreover have "\<forall>j. a \<le> j \<and> j < Suc b \<longrightarrow> f j \<le> f i"
          using mxall False by (metis less_Suc_eq not_less)
        ultimately show ?thesis using unfold i before by simp
      qed
    qed
  qed
qed

lemma first_fold_inv:
  "a \<le> b \<Longrightarrow>
   (case fold (first_step q) [a..<b] None of
     None \<Rightarrow> (\<forall>j. a \<le> j \<and> j < b \<longrightarrow> \<not> q j)
   | Some i \<Rightarrow> a \<le> i \<and> i < b \<and> q i \<and> (\<forall>j. a \<le> j \<and> j < i \<longrightarrow> \<not> q j))"
proof (induction b)
  case 0
  then show ?case by simp
next
  case (Suc b)
  show ?case
  proof (cases "a = Suc b")
    case True
    then show ?thesis by auto
  next
    case False
    with Suc.prems have ab: "a \<le> b" by simp
    have unfold: "fold (first_step q) [a..<Suc b] None
        = first_step q b (fold (first_step q) [a..<b] None)"
      using ab by simp
    note ih = Suc.IH [OF ab]
    show ?thesis
    proof (cases "fold (first_step q) [a..<b] None")
      case None
      with ih have low: "\<forall>j. a \<le> j \<and> j < b \<longrightarrow> \<not> q j" by simp
      have stp: "first_step q b None = (if q b then Some b else None)"
        by (simp add: first_step_def)
      show ?thesis
      proof (cases "q b")
        case True
        then have "fold (first_step q) [a..<Suc b] None = Some b"
          using unfold None stp by simp
        then show ?thesis using low ab True by simp
      next
        case False
        then have "fold (first_step q) [a..<Suc b] None = None"
          using unfold None stp by simp
        moreover have "\<forall>j. a \<le> j \<and> j < Suc b \<longrightarrow> \<not> q j"
          using low False by (metis less_Suc_eq)
        ultimately show ?thesis by simp
      qed
    next
      case (Some i)
      have "first_step q b (Some i) = Some i" by (simp add: first_step_def)
      then have "fold (first_step q) [a..<Suc b] None = Some i"
        using unfold Some by simp
      moreover from ih Some have "a \<le> i \<and> i < b \<and> q i \<and> (\<forall>j. a \<le> j \<and> j < i \<longrightarrow> \<not> q j)"
        by simp
      ultimately show ?thesis by simp
    qed
  qed
qed

lemma upd_set: "set (AList.update k v al) \<subseteq> insert (k, v) (set al)"
  by (induction al) auto



lemma first_fold_Some_iff:
  assumes "a \<le> b"
  shows "(fold (first_step q) [a..<b] None = Some i) =
         (a \<le> i \<and> i < b \<and> q i \<and> (\<forall>j. a \<le> j \<and> j < i \<longrightarrow> \<not> q j))"
proof
  assume "fold (first_step q) [a..<b] None = Some i"
  with first_fold_inv [OF assms, of q]
  show "a \<le> i \<and> i < b \<and> q i \<and> (\<forall>j. a \<le> j \<and> j < i \<longrightarrow> \<not> q j)" by simp
next
  assume r: "a \<le> i \<and> i < b \<and> q i \<and> (\<forall>j. a \<le> j \<and> j < i \<longrightarrow> \<not> q j)"
  show "fold (first_step q) [a..<b] None = Some i"
  proof (cases "fold (first_step q) [a..<b] None")
    case None
    with first_fold_inv [OF assms, of q] have "\<forall>j. a \<le> j \<and> j < b \<longrightarrow> \<not> q j" by simp
    with r show ?thesis by blast
  next
    case (Some k)
    with first_fold_inv [OF assms, of q]
    have k: "a \<le> k" "k < b" "q k" "\<forall>j. a \<le> j \<and> j < k \<longrightarrow> \<not> q j" by simp_all
    have "\<not> k < i" using r k by blast
    moreover have "\<not> i < k" using r k by blast
    ultimately have "k = i" by simp
    with Some show ?thesis by simp
  qed
qed

lemma first_fold_None_iff:
  assumes "a \<le> b"
  shows "(fold (first_step q) [a..<b] None = None) = (\<forall>j. a \<le> j \<and> j < b \<longrightarrow> \<not> q j)"
proof
  assume "fold (first_step q) [a..<b] None = None"
  with first_fold_inv [OF assms, of q] show "\<forall>j. a \<le> j \<and> j < b \<longrightarrow> \<not> q j" by simp
next
  assume r: "\<forall>j. a \<le> j \<and> j < b \<longrightarrow> \<not> q j"
  show "fold (first_step q) [a..<b] None = None"
  proof (cases "fold (first_step q) [a..<b] None")
    case None
    then show ?thesis .
  next
    case (Some k)
    with first_fold_inv [OF assms, of q] have "a \<le> k \<and> k < b \<and> q k" by simp
    with r show ?thesis by blast
  qed
qed

lemma best_fold_Some_iff:
  assumes "a \<le> b"
  shows "(fst (fold (best_step f) [a..<b] (None, 0)) = Some i) =
         (a \<le> i \<and> i < b \<and> 3 \<le> f i \<and> (\<forall>j. a \<le> j \<and> j < b \<longrightarrow> f j \<le> f i) \<and>
          (\<forall>j. a \<le> j \<and> j < i \<longrightarrow> f j < f i))"
proof -
  obtain hr mx where st: "fold (best_step f) [a..<b] (None, 0) = (hr, mx)"
    by (cases "fold (best_step f) [a..<b] (None, 0)")
  note inv = best_fold_inv [OF assms, of f, unfolded st]
  show ?thesis
  proof
    assume "fst (fold (best_step f) [a..<b] (None, 0)) = Some i"
    then have "hr = Some i" using st by simp
    with inv show "a \<le> i \<and> i < b \<and> 3 \<le> f i \<and> (\<forall>j. a \<le> j \<and> j < b \<longrightarrow> f j \<le> f i) \<and>
          (\<forall>j. a \<le> j \<and> j < i \<longrightarrow> f j < f i)" by simp
  next
    assume r: "a \<le> i \<and> i < b \<and> 3 \<le> f i \<and> (\<forall>j. a \<le> j \<and> j < b \<longrightarrow> f j \<le> f i) \<and>
          (\<forall>j. a \<le> j \<and> j < i \<longrightarrow> f j < f i)"
    show "fst (fold (best_step f) [a..<b] (None, 0)) = Some i"
    proof (cases hr)
      case None
      with inv have "\<forall>j. a \<le> j \<and> j < b \<longrightarrow> f j < 3" by simp
      then have "f i < 3" using r by blast
      with r show ?thesis by simp
    next
      case (Some k)
      with inv have k: "a \<le> k" "k < b" "3 \<le> f k"
        "\<forall>j. a \<le> j \<and> j < b \<longrightarrow> f j \<le> f k" "\<forall>j. a \<le> j \<and> j < k \<longrightarrow> f j < f k" by simp_all
      have ik: "f i \<le> f k" using r k by blast
      have ki: "f k \<le> f i" using r k by blast
      have "\<not> k < i"
      proof
        assume "k < i"
        then have "f k < f i" using r k by blast
        with ik show False by simp
      qed
      moreover have "\<not> i < k"
      proof
        assume "i < k"
        then have "f i < f k" using r k by blast
        with ki show False by simp
      qed
      ultimately have "k = i" by simp
      with Some st show ?thesis by simp
    qed
  qed
qed

lemma best_fold_None_iff:
  assumes "a \<le> b"
  shows "(fst (fold (best_step f) [a..<b] (None, 0)) = None) = (\<forall>j. a \<le> j \<and> j < b \<longrightarrow> f j < 3)"
proof -
  obtain hr mx where st: "fold (best_step f) [a..<b] (None, 0) = (hr, mx)"
    by (cases "fold (best_step f) [a..<b] (None, 0)")
  note inv = best_fold_inv [OF assms, of f, unfolded st]
  show ?thesis
  proof
    assume "fst (fold (best_step f) [a..<b] (None, 0)) = None"
    then have "hr = None" using st by simp
    with inv show "\<forall>j. a \<le> j \<and> j < b \<longrightarrow> f j < 3" by simp
  next
    assume r: "\<forall>j. a \<le> j \<and> j < b \<longrightarrow> f j < 3"
    show "fst (fold (best_step f) [a..<b] (None, 0)) = None"
    proof (cases hr)
      case None
      with st show ?thesis by simp
    next
      case (Some k)
      with inv have "a \<le> k \<and> k < b \<and> 3 \<le> f k" by simp
      moreover then have "f k < 3" using r by blast
      ultimately show ?thesis by simp
    qed
  qed
qed

lemma strip_Nil: "strip [] = []"
  by (simp add: strip_def)

lemma strip_nonempty_iff: "(strip s \<noteq> []) = (\<exists>c\<in>set s. \<not> is_space c)"
proof
  assume ne: "strip s \<noteq> []"
  have "strip s = []" if "dropWhile is_space s = []"
    unfolding strip_def that by simp
  with ne have "dropWhile is_space s \<noteq> []" by blast
  then show "\<exists>c\<in>set s. \<not> is_space c" by (simp add: dropWhile_eq_Nil_conv)
next
  assume "\<exists>c\<in>set s. \<not> is_space c"
  then have ne: "dropWhile is_space s \<noteq> []" by (simp add: dropWhile_eq_Nil_conv)
  then have "\<not> is_space (hd (dropWhile is_space s))" by (rule hd_dropWhile)
  moreover have "hd (dropWhile is_space s) \<in> set (rev (dropWhile is_space s))"
    using ne by simp
  ultimately have "dropWhile is_space (rev (dropWhile is_space s)) \<noteq> []"
    by (auto simp: dropWhile_eq_Nil_conv)
  then show "strip s \<noteq> []" by (simp add: strip_def)
qed

lemma digit_char_not_space: "d < 10 \<Longrightarrow> \<not> is_space (digit_char d)"
proof -
  assume "d < 10"
  then have "digit_char d \<in> set ''0123456789''"
    unfolding digit_char_def by (intro nth_mem) simp
  moreover have "\<forall>c\<in>set ''0123456789''. \<not> is_space c"
    by (simp add: is_space_def)
  ultimately show ?thesis by blast
qed

lemma digits_last: "\<exists>ds d. digits n = ds @ [digit_char d] \<and> d < 10"
  by (subst digits.simps) (auto intro: exI [of _ "[]"])

lemma strip_str_int: "strip (str_int i) \<noteq> []"
proof -
  obtain ds d where "digits (nat \<bar>i\<bar>) = ds @ [digit_char d]" "d < 10" using digits_last by blast
  moreover have "str_int i = digits (nat \<bar>i\<bar>) \<or> str_int i = CHR ''-'' # digits (nat \<bar>i\<bar>)"
    by (simp add: str_int_def)
  ultimately show ?thesis using digit_char_not_space by (auto simp: strip_nonempty_iff)
qed

lemma strip_strf_date: "strip (strf_date y mo d) \<noteq> []"
proof -
  have "\<not> is_space (CHR ''-'')" by (simp add: is_space_def)
  then show ?thesis by (auto simp: strip_nonempty_iff strf_date_def)
qed

lemma strip_True: "strip ''True'' \<noteq> []" "strip ''False'' \<noteq> []"
  by (simp_all add: strip_nonempty_iff is_space_def)

lemma all_range_code: "list_all P [a..<b] \<Longrightarrow> \<forall>j. a \<le> j \<and> j < b \<longrightarrow> P j"
  by (simp add: list_all_iff)

lemma lt_min_D: "(i::nat) < min a (b + 1) \<Longrightarrow> i < a \<and> i \<le> b"
  by auto

lemma lt_min_I: "(i::nat) < a \<Longrightarrow> i \<le> b \<Longrightarrow> i < min a (b + 1)"
  by auto

section \<open>The detectors\<close>

subsection \<open>Worksheet rows\<close>

lemma length_le_max_row: "length g \<le> max_row g"
  by (simp add: max_row_def)

lemma string_count_blank: "string_count (replicate n CNone) = 0"
  by (induction n) (simp_all add: string_count_def counts_simple_def)

lemma counts_simple_truthy: "counts_simple c \<Longrightarrow> truthy c"
  by (cases c) (auto simp: counts_simple_def strip_Nil)

lemma string_count_truthy:
  assumes "0 < string_count row"
  shows "list_ex truthy row"
proof -
  from assms have "filter counts_simple row \<noteq> []" by (simp add: string_count_def)
  then obtain c where c: "c \<in> set row" "counts_simple c"
    by (auto simp: filter_empty_conv)
  from c(2) have "truthy c" by (rule counts_simple_truthy)
  with c(1) show ?thesis by (auto simp: list_ex_iff)
qed

lemma qualifies_simple_iff: "qualifies_simple g i = (3 \<le> string_count (ws_row g i))"
proof
  assume "qualifies_simple g i"
  then show "3 \<le> string_count (ws_row g i)" by (simp add: qualifies_simple_def)
next
  assume c: "3 \<le> string_count (ws_row g i)"
  then have "0 < string_count (ws_row g i)" by simp
  then have "list_ex truthy (ws_row g i)" by (rule string_count_truthy)
  with c show "qualifies_simple g i" by (simp add: qualifies_simple_def)
qed

lemma qualifies_simple_in_range:
  assumes "qualifies_simple g i"
  shows "1 \<le> i \<and> i \<le> length g"
proof (rule ccontr)
  assume "\<not> (1 \<le> i \<and> i \<le> length g)"
  then have "ws_row g i = replicate (max_column g) CNone" by (auto simp: ws_row_def)
  with assms show False by (simp add: qualifies_simple_iff string_count_blank)
qed

subsection \<open>The best-qualifying loop\<close>

lemma first_20_rows_length: "length (first_20_rows g) = min 21 (max_row g + 1) - 1"
  by (simp add: first_20_rows_def)

lemma first_20_rows_nth:
  assumes "1 \<le> i" "i < min 21 (max_row g + 1)"
  shows "f_values (first_20_rows g ! (i - 1)) = map row_value (ws_row g i)"
proof -
  define n where "n = min 21 (max_row g + 1)"
  have lt: "i < n" using assms(2) by (simp add: n_def)
  have len: "i - 1 < length [1..<n]" using lt assms(1) by simp
  have nth: "[1..<n] ! (i - 1) = i" using lt assms(1) by simp
  have "first_20_rows g = map (\<lambda>i. \<lparr>f_row_num = i, f_values = map row_value (ws_row g i)\<rparr>) [1..<n]"
    by (simp add: first_20_rows_def n_def)
  then show ?thesis using len nth by simp
qed

lemma detect_step_eq:
  assumes "1 \<le> i" "i < min 15 (max_row g + 1)"
  shows "detect_step (first_20_rows g) i st = best_step (row_count_v2 g) i st"
proof -
  have lt: "i < min 21 (max_row g + 1)" using assms(2) by simp
  have "i \<le> length (first_20_rows g)" using lt unfolding first_20_rows_length by linarith
  moreover have "f_values (first_20_rows g ! (i - 1)) = map row_value (ws_row g i)"
    by (rule first_20_rows_nth [OF assms(1) lt])
  ultimately show ?thesis
    by (simp add: detect_step_def best_step_def row_count_v2_def Let_def)
qed

lemma detect_header_v2_fold:
  "detect_header_v2 g =
     fst (fold (best_step (row_count_v2 g)) [1..<min 15 (max_row g + 1)] (None, 0))"
proof -
  have "fold (detect_step (first_20_rows g)) [1..<min 15 (max_row g + 1)] (None, 0)
      = fold (best_step (row_count_v2 g)) [1..<min 15 (max_row g + 1)] (None, 0)"
  proof (rule fold_cong)
    fix x assume "x \<in> set [1..<min 15 (max_row g + 1)]"
    then have "x \<in> {1..<min 15 (max_row g + 1)}" by (simp only: set_upt)
    then have "1 \<le> x" "x < min 15 (max_row g + 1)" by (simp_all only: atLeastLessThan_iff)
    then show "detect_step (first_20_rows g) x = best_step (row_count_v2 g) x"
      by (intro ext detect_step_eq)
  qed simp_all
  then show ?thesis unfolding detect_header_v2_def by simp
qed

lemma scan_bound_pos: "(1::nat) \<le> min 15 (max_row g + 1)"
  by simp

lemma detect_v2_Some_iff:
  "(detect_header_v2 g = Some i) =
   (1 \<le> i \<and> i < min 15 (max_row g + 1) \<and> 3 \<le> row_count_v2 g i \<and>
    (\<forall>j. 1 \<le> j \<and> j < min 15 (max_row g + 1) \<longrightarrow> row_count_v2 g j \<le> row_count_v2 g i) \<and>
    (\<forall>j. 1 \<le> j \<and> j < i \<longrightarrow> row_count_v2 g j < row_count_v2 g i))"
  unfolding detect_header_v2_fold by (rule best_fold_Some_iff [OF scan_bound_pos])

lemma detect_v2_None_iff:
  "(detect_header_v2 g = None) =
   (\<forall>j. 1 \<le> j \<and> j < min 15 (max_row g + 1) \<longrightarrow> row_count_v2 g j < 3)"
  unfolding detect_header_v2_fold by (rule best_fold_None_iff [OF scan_bound_pos])

lemma detect_v2_only:
  assumes i: "1 \<le> i" "i < min 15 (max_row g + 1)" and c: "3 \<le> row_count_v2 g i"
    and others: "\<forall>j. 1 \<le> j \<and> j < min 15 (max_row g + 1) \<and> j \<noteq> i \<longrightarrow> row_count_v2 g j < 3"
  shows "detect_header_v2 g = Some i"
proof -
  have mx: "\<forall>j. 1 \<le> j \<and> j < min 15 (max_row g + 1) \<longrightarrow> row_count_v2 g j \<le> row_count_v2 g i"
  proof (intro allI impI)
    fix j assume j: "1 \<le> j \<and> j < min 15 (max_row g + 1)"
    show "row_count_v2 g j \<le> row_count_v2 g i"
    proof (cases "j = i")
      case True
      then show ?thesis by simp
    next
      case False
      with j others have "row_count_v2 g j < 3" by blast
      with c show ?thesis by linarith
    qed
  qed
  have before: "\<forall>j. 1 \<le> j \<and> j < i \<longrightarrow> row_count_v2 g j < row_count_v2 g i"
  proof (intro allI impI)
    fix j assume j: "1 \<le> j \<and> j < i"
    then have "j < min 15 (max_row g + 1)" using i(2) by linarith
    with j others have "row_count_v2 g j < 3" by auto
    with c show "row_count_v2 g j < row_count_v2 g i" by linarith
  qed
  show ?thesis unfolding detect_v2_Some_iff using i c mx before by blast
qed

subsection \<open>The first-qualifying loops\<close>

lemma simple_step_eq: "simple_step g = first_step (qualifies_simple g)"
  by (intro ext) (simp add: simple_step_def first_step_def qualifies_simple_def Let_def)

lemma summary_step_eq: "summary_step g = first_step (qualifies_summary g)"
  by (intro ext) (auto simp: summary_step_def first_step_def qualifies_summary_def Let_def)

lemma one_le_21: "(1::nat) \<le> 21"
  by simp

lemma detect_simple_Some_iff:
  "(detect_header_simple g = Some i) =
   (1 \<le> i \<and> i < 21 \<and> qualifies_simple g i \<and> (\<forall>j. 1 \<le> j \<and> j < i \<longrightarrow> \<not> qualifies_simple g j))"
  unfolding detect_header_simple_def simple_step_eq by (rule first_fold_Some_iff [OF one_le_21])

lemma detect_simple_None_iff:
  "(detect_header_simple g = None) = (\<forall>j. 1 \<le> j \<and> j < 21 \<longrightarrow> \<not> qualifies_simple g j)"
  unfolding detect_header_simple_def simple_step_eq by (rule first_fold_None_iff [OF one_le_21])

lemma detect_summary_Some_iff:
  "(detect_header_summary g = Some i) =
   (1 \<le> i \<and> i < min 15 (max_row g + 1) \<and> qualifies_summary g i \<and>
    (\<forall>j. 1 \<le> j \<and> j < i \<longrightarrow> \<not> qualifies_summary g j))"
  unfolding detect_header_summary_def summary_step_eq
  by (rule first_fold_Some_iff [OF scan_bound_pos])

lemma looks_fold:
  "fold looks_step row b =
   (b \<and> (\<forall>c\<in>set row. truthy c \<longrightarrow>
      length (strip (py_str c)) \<le> 100 \<and> count_newlines (strip (py_str c)) \<le> 2))"
  by (induction row arbitrary: b) (auto simp: looks_step_def Let_def)

lemma looks_like_header_iff:
  "looks_like_header row =
   (\<forall>c\<in>set row. truthy c \<longrightarrow>
      length (strip (py_str c)) \<le> 100 \<and> count_newlines (strip (py_str c)) \<le> 2)"
  by (simp add: looks_like_header_def looks_fold)

subsection \<open>What the best-qualifying detector counts\<close>

lemma counts_v2_row_value:
  assumes "renders_nonblank c"
  shows "counts_v2 (row_value c) = meaningful c"
proof (cases c)
  case CNone
  then show ?thesis by (simp add: row_value_def counts_v2_def meaningful_def)
next
  case (CStr s)
  then show ?thesis by (simp add: row_value_def counts_v2_def meaningful_def)
next
  case (CBool b)
  then show ?thesis
    by (cases b) (simp_all add: row_value_def counts_v2_def meaningful_def strip_True)
next
  case (CInt i)
  then show ?thesis by (simp add: row_value_def counts_v2_def meaningful_def strip_str_int)
next
  case (CFloat r)
  then show ?thesis using assms
    by (simp add: row_value_def counts_v2_def meaningful_def renders_nonblank_def)
next
  case (CTemporal t)
  have "strip (strftime_ymd t) \<noteq> []" by (cases t) (simp_all add: strip_strf_date)
  with CTemporal show ?thesis by (simp add: row_value_def counts_v2_def meaningful_def)
next
  case (COther k r b)
  then show ?thesis using assms
    by (simp add: row_value_def counts_v2_def meaningful_def renders_nonblank_def)
qed

lemma non_none_count_meaningful:
  "\<forall>c\<in>set row. renders_nonblank c \<Longrightarrow> non_none_count (map row_value row) = meaningful_count row"
  by (induction row) (simp_all add: non_none_count_def meaningful_count_def counts_v2_row_value)

lemma counts_simple_meaningful: "counts_simple = (\<lambda>c. isinstance_str c \<and> meaningful c)"
  by (intro ext) (auto simp: counts_simple_def meaningful_def)


section \<open>Properties of header detection\<close>

lemma detect_v2_range:
  assumes "detect_header_v2 g = Some i"
  shows "1 \<le> i \<and> i \<le> 14 \<and> i \<le> max_row g"
proof -
  from assms have "1 \<le> i" "i < min 15 (max_row g + 1)"
    using detect_v2_Some_iff [of g i] by blast+
  from this(1) lt_min_D [OF this(2)] show ?thesis by simp
qed

lemma detect_summary_range:
  assumes "detect_header_summary g = Some i"
  shows "1 \<le> i \<and> i \<le> 14 \<and> i \<le> max_row g"
proof -
  from assms have "1 \<le> i" "i < min 15 (max_row g + 1)"
    using detect_summary_Some_iff [of g i] by blast+
  from this(1) lt_min_D [OF this(2)] show ?thesis by simp
qed

lemma detect_simple_range:
  assumes "detect_header_simple g = Some i"
  shows "1 \<le> i \<and> i \<le> 20 \<and> i \<le> max_row g"
proof -
  from assms have i: "1 \<le> i" "i < 21" and q: "qualifies_simple g i"
    using detect_simple_Some_iff [of g i] by blast+
  from q have "i \<le> length g" using qualifies_simple_in_range by blast
  then have "i \<le> max_row g" using length_le_max_row [of g] by linarith
  with i show ?thesis by simp
qed

lemma detect_v2_at_14:
  assumes "14 \<le> max_row g" "3 \<le> row_count_v2 g 14"
    and low: "\<forall>j. 1 \<le> j \<and> j < 14 \<longrightarrow> row_count_v2 g j < 3"
  shows "detect_header_v2 g = Some 14"
proof (rule detect_v2_only)
  show "(1::nat) \<le> 14" by simp
  show "14 < min 15 (max_row g + 1)" using assms(1) by (intro lt_min_I) simp_all
  show "3 \<le> row_count_v2 g 14" by (rule assms(2))
  show "\<forall>j. 1 \<le> j \<and> j < min 15 (max_row g + 1) \<and> j \<noteq> 14 \<longrightarrow> row_count_v2 g j < 3"
  proof (intro allI impI)
    fix j assume j: "1 \<le> j \<and> j < min 15 (max_row g + 1) \<and> j \<noteq> 14"
    then have "j < 15 \<and> j \<le> max_row g" by (intro lt_min_D) simp
    with j have "1 \<le> j \<and> j < 14" by simp
    with low show "row_count_v2 g j < 3" by blast
  qed
qed

lemma detect_summary_at_14:
  assumes "14 \<le> max_row g" "qualifies_summary g 14"
    and low: "\<forall>j. 1 \<le> j \<and> j < 14 \<longrightarrow> \<not> qualifies_summary g j"
  shows "detect_header_summary g = Some 14"
proof -
  have "(1::nat) \<le> 14" by simp
  moreover have "14 < min 15 (max_row g + 1)" using assms(1) by (intro lt_min_I) simp_all
  ultimately show ?thesis unfolding detect_summary_Some_iff using assms(2) low by blast
qed

lemma detect_simple_first:
  assumes "1 \<le> i" "i \<le> 20" "3 \<le> string_count (ws_row g i)"
    and low: "\<forall>j. 1 \<le> j \<and> j < i \<longrightarrow> string_count (ws_row g j) < 3"
  shows "detect_header_simple g = Some i"
proof -
  have "i < 21" using assms(2) by simp
  moreover have "qualifies_simple g i" using assms(3) by (simp add: qualifies_simple_iff)
  moreover have "\<forall>j. 1 \<le> j \<and> j < i \<longrightarrow> \<not> qualifies_simple g j"
  proof (intro allI impI)
    fix j assume "1 \<le> j \<and> j < i"
    with low have "string_count (ws_row g j) < 3" by blast
    then show "\<not> qualifies_simple g j" by (simp add: qualifies_simple_iff)
  qed
  ultimately show ?thesis unfolding detect_simple_Some_iff using assms(1) by blast
qed

lemma detect_simple_None:
  assumes "\<forall>j. 1 \<le> j \<and> j \<le> 20 \<longrightarrow> string_count (ws_row g j) < 3"
  shows "detect_header_simple g = None"
proof -
  have "\<forall>j. 1 \<le> j \<and> j < 21 \<longrightarrow> \<not> qualifies_simple g j"
  proof (intro allI impI)
    fix j :: nat assume "1 \<le> j \<and> j < 21"
    then have "1 \<le> j \<and> j \<le> 20" by simp
    with assms have "string_count (ws_row g j) < 3" by blast
    then show "\<not> qualifies_simple g j" by (simp add: qualifies_simple_iff)
  qed
  then show ?thesis unfolding detect_simple_None_iff .
qed

lemma detect_simple_count:
  assumes "detect_header_simple g = Some i"
  shows "3 \<le> string_count (ws_row g i)"
proof -
  from assms have "qualifies_simple g i" using detect_simple_Some_iff [of g i] by blast
  then show ?thesis by (simp add: qualifies_simple_iff)
qed

lemma detect_v2_count:
  assumes "detect_header_v2 g = Some i"
  shows "3 \<le> row_count_v2 g i"
  using assms detect_v2_Some_iff [of g i] by blast

lemma analyze_excel_worksheet:
  assumes "fs filepath = Workbook (Worksheet title g)"
  shows "fst (analyze_excel fs filepath name) =
         analyze_sheet ((initial_result filepath name)\<lparr>r_exists := True\<rparr>) title g"
  using assms by (simp add: analyze_excel_def)

subsection \<open>Facts about the example worksheets\<close>

lemma grid_row14_facts:
  "max_row grid_row14 = 14"
  "row_count_v2 grid_row14 14 = 3"
  "string_count (ws_row grid_row14 14) = 3"
  "list_all (\<lambda>j. row_count_v2 grid_row14 j < 3) [1..<14]"
  "list_all (\<lambda>j. string_count (ws_row grid_row14 j) < 3) [1..<14]"
  "qualifies_summary grid_row14 14"
  "list_all (\<lambda>j. \<not> qualifies_summary grid_row14 j) [1..<14]"
  by code_simp+

lemma grid_row20_facts:
  "string_count (ws_row grid_row20 20) = 3"
  "list_all (\<lambda>j. string_count (ws_row grid_row20 j) < 3) [1..<20]"
  by code_simp+

lemma sparse_grid_facts:
  "list_all (\<lambda>j. row_count_v2 sparse_grid j < 3) [1..<min 15 (max_row sparse_grid + 1)]"
  "list_all (\<lambda>j. string_count (ws_row sparse_grid j) < 3) [1..<21]"
  by code_simp+

text \<open>
  Claim C4: in the best-qualifying script the detector returns row \<open>i\<close> exactly when \<open>i\<close> is a
  scanned row with at least 3 counted cells, no scanned row has a greater count, and every
  earlier scanned row has a strictly smaller count: the greatest count wins, and among rows
  that share it the lowest row number.
\<close>

theorem C4_best_qualifying:
  "(detect_header_v2 g = Some i) =
   (1 \<le> i \<and> i < min 15 (max_row g + 1) \<and> 3 \<le> row_count_v2 g i \<and>
    (\<forall>j. 1 \<le> j \<and> j < min 15 (max_row g + 1) \<longrightarrow> row_count_v2 g j \<le> row_count_v2 g i) \<and>
    (\<forall>j. 1 \<le> j \<and> j < i \<longrightarrow> row_count_v2 g j < row_count_v2 g i))"
  by (rule detect_v2_Some_iff)

theorem C4_best_qualifying_witness:
  "detect_header_v2 tie_grid = Some 2 \<and>
   row_count_v2 tie_grid 3 = row_count_v2 tie_grid 2 \<and>
   row_count_v2 tie_grid 1 < row_count_v2 tie_grid 2 \<and>
   row_count_v2 tie_grid 3 \<le> row_count_v2 tie_grid 2"
proof -
  have d: "detect_header_v2 tie_grid = Some 2" by code_simp
  have e: "row_count_v2 tie_grid 3 = row_count_v2 tie_grid 2" by code_simp
  have m: "max_row tie_grid = 3" by code_simp
  from d C4_best_qualifying [of tie_grid 2]
  have a: "\<forall>j. 1 \<le> j \<and> j < min 15 (max_row tie_grid + 1) \<longrightarrow>
             row_count_v2 tie_grid j \<le> row_count_v2 tie_grid 2"
    and b: "\<forall>j. 1 \<le> j \<and> j < 2 \<longrightarrow> row_count_v2 tie_grid j < row_count_v2 tie_grid 2"
    by blast+
  from a [rule_format, of 3] m have "row_count_v2 tie_grid 3 \<le> row_count_v2 tie_grid 2" by simp
  moreover from b [rule_format, of 1] have "row_count_v2 tie_grid 1 < row_count_v2 tie_grid 2"
    by simp
  ultimately show ?thesis using d e by simp
qed

text \<open>
  Claim C3, as the code has it: the two stricter scripts loop over
  \<^verbatim>\<open>range(1, min(15, ws.max_row + 1))\<close>, that is over rows 1 to min(14, total rows): the bound
  15 is exclusive. The simpler script examines rows 1 to 20. A detected row lies in the scanned
  range and within the sheet; row 14 (row 20 in the simpler script) is selected when it is the
  first row that qualifies; no row from 15 on (from 21 on) is ever selected.
\<close>

theorem C3_scan_bound:
  "(detect_header_v2 g = Some i \<longrightarrow> 1 \<le> i \<and> i \<le> 14 \<and> i \<le> max_row g) \<and>
   (detect_header_summary g = Some i \<longrightarrow> 1 \<le> i \<and> i \<le> 14 \<and> i \<le> max_row g) \<and>
   (detect_header_simple g = Some i \<longrightarrow> 1 \<le> i \<and> i \<le> 20 \<and> i \<le> max_row g) \<and>
   (14 \<le> max_row g \<and> 3 \<le> row_count_v2 g 14 \<and>
      (\<forall>j. 1 \<le> j \<and> j < 14 \<longrightarrow> row_count_v2 g j < 3) \<longrightarrow> detect_header_v2 g = Some 14) \<and>
   (14 \<le> max_row g \<and> qualifies_summary g 14 \<and>
      (\<forall>j. 1 \<le> j \<and> j < 14 \<longrightarrow> \<not> qualifies_summary g j) \<longrightarrow> detect_header_summary g = Some 14) \<and>
   (3 \<le> string_count (ws_row h 20) \<and>
      (\<forall>j. 1 \<le> j \<and> j < 20 \<longrightarrow> string_count (ws_row h j) < 3) \<longrightarrow> detect_header_simple h = Some 20)"
proof (intro conjI impI)
  assume "detect_header_v2 g = Some i"
  then show "1 \<le> i" "i \<le> 14" "i \<le> max_row g" using detect_v2_range by blast+
next
  assume "detect_header_summary g = Some i"
  then show "1 \<le> i" "i \<le> 14" "i \<le> max_row g" using detect_summary_range by blast+
next
  assume "detect_header_simple g = Some i"
  then show "1 \<le> i" "i \<le> 20" "i \<le> max_row g" using detect_simple_range by blast+
next
  assume "14 \<le> max_row g \<and> 3 \<le> row_count_v2 g 14 \<and>
      (\<forall>j. 1 \<le> j \<and> j < 14 \<longrightarrow> row_count_v2 g j < 3)"
  then show "detect_header_v2 g = Some 14" using detect_v2_at_14 by blast
next
  assume "14 \<le> max_row g \<and> qualifies_summary g 14 \<and>
      (\<forall>j. 1 \<le> j \<and> j < 14 \<longrightarrow> \<not> qualifies_summary g j)"
  then show "detect_header_summary g = Some 14" using detect_summary_at_14 by blast
next
  assume a: "3 \<le> string_count (ws_row h 20) \<and>
      (\<forall>j. 1 \<le> j \<and> j < 20 \<longrightarrow> string_count (ws_row h j) < 3)"
  have "(1::nat) \<le> 20" "(20::nat) \<le> 20" by simp_all
  with a show "detect_header_simple h = Some 20" using detect_simple_first [of 20 h] by blast
qed

theorem C3_scan_bound_witness:
  "detect_header_v2 grid_row14 = Some 14 \<and> detect_header_summary grid_row14 = Some 14 \<and>
   detect_header_simple grid_row20 = Some 20 \<and> 14 \<le> max_row grid_row14"
proof -
  have m: "14 \<le> max_row grid_row14" by (simp add: grid_row14_facts)
  have c: "3 \<le> row_count_v2 grid_row14 14" by (simp add: grid_row14_facts)
  have low: "\<forall>j. 1 \<le> j \<and> j < 14 \<longrightarrow> row_count_v2 grid_row14 j < 3"
    by (rule all_range_code) (rule grid_row14_facts)
  have lows: "\<forall>j. 1 \<le> j \<and> j < 14 \<longrightarrow> \<not> qualifies_summary grid_row14 j"
    by (rule all_range_code) (rule grid_row14_facts)
  have c20: "3 \<le> string_count (ws_row grid_row20 20)" by (simp add: grid_row20_facts)
  have low20: "\<forall>j. 1 \<le> j \<and> j < 20 \<longrightarrow> string_count (ws_row grid_row20 j) < 3"
    by (rule all_range_code) (rule grid_row20_facts)
  note t = C3_scan_bound [of grid_row14 14 grid_row20]
  from t m c low have "detect_header_v2 grid_row14 = Some 14" by blast
  moreover from t m lows grid_row14_facts(6) have "detect_header_summary grid_row14 = Some 14"
    by blast
  moreover from t c20 low20 have "detect_header_simple grid_row20 = Some 20" by blast
  ultimately show ?thesis using m by simp
qed

text \<open>
  Claim C3 as stated fails: in a sheet of 15 rows whose only row with 3 texts is row 15, the row
  at the stated scan limit is not examined and both stricter detectors find no header.
\<close>

theorem C3_counterexample:
  "max_row grid_row15 = 15 \<and> row_count_v2 grid_row15 15 = 3 \<and>
   qualifies_summary grid_row15 15 \<and>
   detect_header_v2 grid_row15 = None \<and> detect_header_summary grid_row15 = None"
  by code_simp

text \<open>
  Claim C6: when no scanned row has at least 3 counted cells the detector finds no header, the
  caller takes row 1, and the analysis goes on from that row: the headers are read from row 1,
  the sample rows are the rows after it, and no error is recorded. The same fallback holds in
  the simpler script.
\<close>

theorem C6_fallback_row_1:
  "((\<forall>j. 1 \<le> j \<and> j < min 15 (max_row g + 1) \<longrightarrow> row_count_v2 g j < 3) \<longrightarrow>
      detect_header_v2 g = None \<and> header_row_or_1 (detect_header_v2 g) = 1 \<and>
      (fs filepath = Workbook (Worksheet title g) \<longrightarrow>
         r_header_row (fst (analyze_excel fs filepath name)) = Some 1 \<and>
         r_headers (fst (analyze_excel fs filepath name)) = header_fields (ws_row g 1) \<and>
         r_sample_data (fst (analyze_excel fs filepath name))
           = sample_rows g 1 (header_fields (ws_row g 1)) \<and>
         r_error (fst (analyze_excel fs filepath name)) = None)) \<and>
   ((\<forall>j. 1 \<le> j \<and> j \<le> 20 \<longrightarrow> string_count (ws_row h j) < 3) \<longrightarrow>
      detect_header_simple h = None \<and> header_row_or_1 (detect_header_simple h) = 1)"
proof (intro conjI impI)
  assume a: "\<forall>j. 1 \<le> j \<and> j < min 15 (max_row g + 1) \<longrightarrow> row_count_v2 g j < 3"
  then show n: "detect_header_v2 g = None" unfolding detect_v2_None_iff .
  then show "header_row_or_1 (detect_header_v2 g) = 1" by (simp add: header_row_or_1_def)
  assume w: "fs filepath = Workbook (Worksheet title g)"
  show "r_header_row (fst (analyze_excel fs filepath name)) = Some 1"
    using n by (simp add: analyze_excel_worksheet [where fs = fs and filepath = filepath, OF w] analyze_sheet_def header_row_or_1_def Let_def)
  show "r_headers (fst (analyze_excel fs filepath name)) = header_fields (ws_row g 1)"
    using n by (simp add: analyze_excel_worksheet [where fs = fs and filepath = filepath, OF w] analyze_sheet_def header_row_or_1_def Let_def)
  show "r_sample_data (fst (analyze_excel fs filepath name))
      = sample_rows g 1 (header_fields (ws_row g 1))"
    using n by (simp add: analyze_excel_worksheet [where fs = fs and filepath = filepath, OF w] analyze_sheet_def header_row_or_1_def Let_def)
  show "r_error (fst (analyze_excel fs filepath name)) = None"
    by (simp add: analyze_excel_worksheet [where fs = fs and filepath = filepath, OF w] analyze_sheet_def initial_result_def Let_def)
next
  assume a: "\<forall>j. 1 \<le> j \<and> j \<le> 20 \<longrightarrow> string_count (ws_row h j) < 3"
  then show n: "detect_header_simple h = None" by (rule detect_simple_None)
  then show "header_row_or_1 (detect_header_simple h) = 1" by (simp add: header_row_or_1_def)
qed

theorem C6_fallback_row_1_witness:
  "detect_header_v2 sparse_grid = None \<and>
   r_header_row (fst (analyze_excel (\<lambda>p. Workbook (Worksheet ''S'' sparse_grid)) ''s.xlsx'' ''S''))
     = Some 1 \<and>
   r_error (fst (analyze_excel (\<lambda>p. Workbook (Worksheet ''S'' sparse_grid)) ''s.xlsx'' ''S''))
     = None \<and>
   header_row_or_1 (detect_header_simple sparse_grid) = 1"
proof -
  have a: "\<forall>j. 1 \<le> j \<and> j < min 15 (max_row sparse_grid + 1) \<longrightarrow> row_count_v2 sparse_grid j < 3"
    by (rule all_range_code) (rule sparse_grid_facts)
  have "\<forall>j. 1 \<le> j \<and> j < 21 \<longrightarrow> string_count (ws_row sparse_grid j) < 3"
    by (rule all_range_code) (rule sparse_grid_facts)
  then have b: "\<forall>j. 1 \<le> j \<and> j \<le> 20 \<longrightarrow> string_count (ws_row sparse_grid j) < 3"
    by auto
  have w: "(\<lambda>p. Workbook (Worksheet ''S'' sparse_grid)) ''s.xlsx''
      = Workbook (Worksheet ''S'' sparse_grid)" by simp
  show ?thesis
    using C6_fallback_row_1 [of sparse_grid "\<lambda>p. Workbook (Worksheet ''S'' sparse_grid)"
        "''s.xlsx''" "''S''" "''S''" sparse_grid] a b w
    by blast
qed

text \<open>
  Claim C2, as the code has it. In \<^verbatim>\<open>analyze_excel_v2.py\<close> the count of a row is the number
  of its cells that are not absent and, when textual, not blank after trimming, so numeric cells
  count. In \<^verbatim>\<open>analyze_excel.py\<close> only the textual cells among these count. In both scripts a
  row that the detector selects has at least 3 counted cells, so a row with 2 is never selected,
  and a scanned row with exactly 3 counted cells is selected when no other scanned row (in the
  simpler script: no earlier row) reaches 3.
\<close>

theorem C2_meaningful_threshold:
  "((\<forall>c\<in>set row. renders_nonblank c) \<longrightarrow>
      non_none_count (map row_value row) = meaningful_count row) \<and>
   string_count row = length (filter (\<lambda>c. isinstance_str c \<and> meaningful c) row) \<and>
   (detect_header_v2 g = Some i \<longrightarrow> 3 \<le> row_count_v2 g i) \<and>
   (detect_header_simple g = Some k \<longrightarrow> 3 \<le> string_count (ws_row g k)) \<and>
   (1 \<le> i \<and> i < min 15 (max_row g + 1) \<and> row_count_v2 g i = 3 \<and>
      (\<forall>j. 1 \<le> j \<and> j < min 15 (max_row g + 1) \<and> j \<noteq> i \<longrightarrow> row_count_v2 g j < 3) \<longrightarrow>
      detect_header_v2 g = Some i) \<and>
   (1 \<le> k \<and> k \<le> 20 \<and> string_count (ws_row g k) = 3 \<and>
      (\<forall>j. 1 \<le> j \<and> j < k \<longrightarrow> string_count (ws_row g j) < 3) \<longrightarrow>
      detect_header_simple g = Some k)"
proof (intro conjI impI)
  assume "\<forall>c\<in>set row. renders_nonblank c"
  then show "non_none_count (map row_value row) = meaningful_count row"
    by (rule non_none_count_meaningful)
next
  show "string_count row = length (filter (\<lambda>c. isinstance_str c \<and> meaningful c) row)"
    by (simp add: string_count_def counts_simple_meaningful)
next
  assume "detect_header_v2 g = Some i"
  then show "3 \<le> row_count_v2 g i" by (rule detect_v2_count)
next
  assume "detect_header_simple g = Some k"
  then show "3 \<le> string_count (ws_row g k)" by (rule detect_simple_count)
next
  assume a: "1 \<le> i \<and> i < min 15 (max_row g + 1) \<and> row_count_v2 g i = 3 \<and>
      (\<forall>j. 1 \<le> j \<and> j < min 15 (max_row g + 1) \<and> j \<noteq> i \<longrightarrow> row_count_v2 g j < 3)"
  then have "3 \<le> row_count_v2 g i" by simp
  with a show "detect_header_v2 g = Some i" using detect_v2_only [of i g] by blast
next
  assume a: "1 \<le> k \<and> k \<le> 20 \<and> string_count (ws_row g k) = 3 \<and>
      (\<forall>j. 1 \<le> j \<and> j < k \<longrightarrow> string_count (ws_row g j) < 3)"
  then have "3 \<le> string_count (ws_row g k)" by simp
  with a show "detect_header_simple g = Some k" using detect_simple_first [of k g] by blast
qed

theorem C2_meaningful_threshold_witness:
  "non_none_count (map row_value mixed_row) = meaningful_count mixed_row \<and>
   meaningful_count mixed_row = 4 \<and>
   detect_header_v2 grid_row14 = Some 14 \<and> detect_header_simple grid_row14 = Some 14 \<and>
   3 \<le> row_count_v2 grid_row14 14 \<and> 3 \<le> string_count (ws_row grid_row14 14)"
proof -
  note t = C2_meaningful_threshold [of mixed_row grid_row14 14 14]
  have r: "\<forall>c\<in>set mixed_row. renders_nonblank c" by code_simp
  have mc: "meaningful_count mixed_row = 4" by code_simp
  have i: "(1::nat) \<le> 14" "(14::nat) < min 15 (max_row grid_row14 + 1)" "(14::nat) \<le> 20"
    by (simp_all add: grid_row14_facts(1))
  have "\<forall>j. 1 \<le> j \<and> j < 14 \<longrightarrow> row_count_v2 grid_row14 j < 3"
    by (rule all_range_code) (rule grid_row14_facts)
  then have low: "\<forall>j. 1 \<le> j \<and> j < min 15 (max_row grid_row14 + 1) \<and> j \<noteq> 14 \<longrightarrow>
      row_count_v2 grid_row14 j < 3"
    by (auto simp: grid_row14_facts(1))
  have lows: "\<forall>j. 1 \<le> j \<and> j < 14 \<longrightarrow> string_count (ws_row grid_row14 j) < 3"
    by (rule all_range_code) (rule grid_row14_facts)
  from t r have e: "non_none_count (map row_value mixed_row) = meaningful_count mixed_row"
    by blast
  from t i low grid_row14_facts(2) have d: "detect_header_v2 grid_row14 = Some 14" by blast
  from t i lows grid_row14_facts(3) have s: "detect_header_simple grid_row14 = Some 14" by blast
  from t d have "3 \<le> row_count_v2 grid_row14 14" by blast
  moreover from t s have "3 \<le> string_count (ws_row grid_row14 14)" by blast
  ultimately show ?thesis using e mc d s by simp
qed

text \<open>
  Claim C2 as stated fails in \<^verbatim>\<open>analyze_excel.py\<close>: a row of three numbers has 3 meaningful
  cells in the claim's sense, the script counts none of them, and the row is not selected
  although it is the only row of the sheet.
\<close>

theorem C2_counterexample:
  "ws_row numeric_grid 1 = [CInt 1, CInt 2, CInt 3] \<and>
   meaningful_count (ws_row numeric_grid 1) = 3 \<and>
   string_count (ws_row numeric_grid 1) = 0 \<and>
   detect_header_simple numeric_grid = None"
  by code_simp

text \<open>
  Claim C8: in \<^verbatim>\<open>analyze_excel_summary.py\<close> a row looks like a header exactly when every
  non-empty cell has a trimmed text of at most 100 characters with at most 2 line feeds. The
  detector returns the first scanned row that has at least 3 non-empty cells and looks like a
  header: a row with 3 non-empty cells of which one is too long or has too many line feeds is
  rejected, and a row with 3 non-empty cells all within the limits is accepted.
\<close>

theorem C8_looks_like_header:
  "(looks_like_header row =
      (\<forall>c\<in>set row. truthy c \<longrightarrow>
         length (strip (py_str c)) \<le> 100 \<and> count_newlines (strip (py_str c)) \<le> 2)) \<and>
   ((detect_header_summary g = Some i) =
      (1 \<le> i \<and> i < min 15 (max_row g + 1) \<and>
       3 \<le> non_empty (ws_row g i) \<and> looks_like_header (ws_row g i) \<and>
       (\<forall>j. 1 \<le> j \<and> j < i \<longrightarrow>
          \<not> (3 \<le> non_empty (ws_row g j) \<and> looks_like_header (ws_row g j)))))"
  using looks_like_header_iff [of row] detect_summary_Some_iff [of g i]
  unfolding qualifies_summary_def by blast

theorem C8_looks_like_header_witness:
  "non_empty (ws_row long_cell_grid 1) = 3 \<and> \<not> looks_like_header (ws_row long_cell_grid 1) \<and>
   looks_like_header (ws_row long_cell_grid 2) \<and> detect_header_summary long_cell_grid = Some 2"
proof -
  have n: "non_empty (ws_row long_cell_grid 1) = 3" by code_simp
  have m: "CStr long_text \<in> set (ws_row long_cell_grid 1)" by code_simp
  have l: "truthy (CStr long_text)" "length (strip (py_str (CStr long_text))) = 101" by code_simp+
  have d: "detect_header_summary long_cell_grid = Some 2" by code_simp
  from C8_looks_like_header [of "ws_row long_cell_grid 1" long_cell_grid 2] m l
  have r: "\<not> looks_like_header (ws_row long_cell_grid 1)" by fastforce
  from C8_looks_like_header [of "ws_row long_cell_grid 1" long_cell_grid 2] d
  have "looks_like_header (ws_row long_cell_grid 2)" by blast
  with n r d show ?thesis by simp
qed


section \<open>Header fields and typed records: the columns that are kept\<close>






lemma upd_mem: "p \<in> set (AList.update k v al) \<Longrightarrow> p = (k, v) \<or> p \<in> set al"
  using upd_set [of k v al] by blast

lemma row_step_mem:
  assumes "(k, e) \<in> set (row_step hs idx v d)"
  shows "(k, e) \<in> set d \<or>
         (k = get_column_letter (idx + 1) \<and> find_header_name hs idx = Some (e_header e) \<and>
          e_header e \<noteq> [] \<and> e_value e = snd (classify v) \<and> e_type e = fst (classify v))"
proof (cases "find_header_name hs idx")
  case None
  with assms show ?thesis by (simp add: row_step_def)
next
  case (Some header_name)
  show ?thesis
  proof (cases "header_name = []")
    case True
    with Some assms show ?thesis by (simp add: row_step_def)
  next
    case False
    with Some assms
    have "(k, e) \<in> set (AList.update (get_column_letter (idx + 1))
        \<lparr>e_header = header_name, e_value = snd (classify v), e_type = fst (classify v)\<rparr> d)"
      by (simp add: row_step_def)
    from upd_mem [OF this] show ?thesis using Some False by auto
  qed
qed

lemma row_loop_mem:
  "(k, e) \<in> set (row_loop hs n vs d) \<Longrightarrow>
   (k, e) \<in> set d \<or>
   (\<exists>j<length vs. k = get_column_letter (n + j + 1) \<and>
      find_header_name hs (n + j) = Some (e_header e) \<and> e_header e \<noteq> [] \<and>
      e_value e = snd (classify (vs ! j)) \<and> e_type e = fst (classify (vs ! j)))"
proof (induction vs arbitrary: n d)
  case Nil
  then show ?case by simp
next
  case (Cons v vs)
  from Cons.prems have "(k, e) \<in> set (row_loop hs (Suc n) vs (row_step hs n v d))" by simp
  from Cons.IH [OF this]
  consider (a) "(k, e) \<in> set (row_step hs n v d)"
    | (b) "\<exists>j<length vs. k = get_column_letter (Suc n + j + 1) \<and>
        find_header_name hs (Suc n + j) = Some (e_header e) \<and> e_header e \<noteq> [] \<and>
        e_value e = snd (classify (vs ! j)) \<and> e_type e = fst (classify (vs ! j))"
    by blast
  then show ?case
  proof cases
    case a
    from row_step_mem [OF a] show ?thesis
    proof
      assume "(k, e) \<in> set d"
      then show ?thesis by simp
    next
      assume "k = get_column_letter (n + 1) \<and> find_header_name hs n = Some (e_header e) \<and>
          e_header e \<noteq> [] \<and> e_value e = snd (classify v) \<and> e_type e = fst (classify v)"
      then show ?thesis by (intro disjI2 exI [of _ 0]) simp
    qed
  next
    case b
    then obtain j where "j < length vs" "k = get_column_letter (Suc n + j + 1)"
      "find_header_name hs (Suc n + j) = Some (e_header e)" "e_header e \<noteq> []"
      "e_value e = snd (classify (vs ! j))" "e_type e = fst (classify (vs ! j))"
      by blast
    then show ?thesis by (intro disjI2 exI [of _ "Suc j"]) simp
  qed
qed

lemma extract_record_mem:
  assumes "(k, e) \<in> set (extract_record hs drow)"
  shows "\<exists>j<length drow. k = get_column_letter (j + 1) \<and>
      find_header_name hs j = Some (e_header e) \<and> e_header e \<noteq> [] \<and>
      e_value e = snd (classify (drow ! j)) \<and> e_type e = fst (classify (drow ! j))"
proof -
  from assms have "(k, e) \<in> set (row_loop hs 0 drow [])" by (simp add: extract_record_def)
  from row_loop_mem [OF this] show ?thesis by simp
qed




lemma analyze_excel_headers:
  assumes "fs filepath = Workbook (Worksheet title g)"
  shows "r_headers (fst (analyze_excel fs filepath name))
           = header_fields (ws_row g (header_row_or_1 (detect_header_v2 g)))"
    and "r_sample_data (fst (analyze_excel fs filepath name))
           = sample_rows g (header_row_or_1 (detect_header_v2 g))
               (header_fields (ws_row g (header_row_or_1 (detect_header_v2 g))))"
  by (simp_all add: analyze_excel_worksheet [where fs = fs and filepath = filepath, OF assms]
      analyze_sheet_def Let_def)





section \<open>Booleans\<close>

lemma classify_not_bool:
  "\<not> foreign_bool c \<Longrightarrow> fst (classify c) \<noteq> ''bool'' \<and> fst (classify c) \<noteq> ''boolean''"
  by (cases c) (simp_all add: classify_def foreign_bool_def)

lemma ws_row_cell:
  assumes "c \<in> set (ws_row g i)"
  shows "c = CNone \<or> (\<exists>row\<in>set g. c \<in> set row)"
proof (cases "1 \<le> i \<and> i \<le> length g")
  case True
  then have "i - 1 < length g" by linarith
  then have "g ! (i - 1) \<in> set g" by (rule nth_mem)
  moreover from True assms have "c \<in> set (g ! (i - 1))" by (simp add: ws_row_def)
  ultimately show ?thesis by blast
next
  case False
  with assms show ?thesis by (auto simp: ws_row_def)
qed

lemma record_tag_not_bool:
  assumes g: "\<forall>row\<in>set g. \<forall>c\<in>set row. \<not> foreign_bool c"
    and m: "(k, e) \<in> set (extract_record hs (ws_row g i))"
  shows "e_type e \<noteq> ''bool'' \<and> e_type e \<noteq> ''boolean''"
proof -
  from extract_record_mem [OF m] obtain j where j: "j < length (ws_row g i)"
    "e_type e = fst (classify (ws_row g i ! j))" by blast
  from j(1) have "ws_row g i ! j \<in> set (ws_row g i)" by (rule nth_mem)
  from ws_row_cell [OF this] g have "\<not> foreign_bool (ws_row g i ! j)"
    by (auto simp: foreign_bool_def)
  from classify_not_bool [OF this] j(2) show ?thesis by simp
qed

text \<open>
  Claim C10: a boolean cell is classified "integer", since the test for integers comes before
  the branch that names the class, and so no entry of an extracted record has the tag "bool" or
  "boolean" (in a workbook where no value of another class has a class of that name).
\<close>

theorem C10_bool_is_integer:
  "get_type_name (CBool b) = ''integer'' \<and> classify (CBool b) = (''integer'', CBool b) \<and>
   (fs filepath = Workbook (Worksheet title g) \<and> (\<forall>row\<in>set g. \<forall>c\<in>set row. \<not> foreign_bool c) \<longrightarrow>
      (\<forall>s\<in>set (r_sample_data (fst (analyze_excel fs filepath name))).
         \<forall>(k, e)\<in>set (s_data s). e_type e \<noteq> ''bool'' \<and> e_type e \<noteq> ''boolean''))"
proof (intro conjI impI ballI)
  show "get_type_name (CBool b) = ''integer''" by (simp add: get_type_name_def)
  show "classify (CBool b) = (''integer'', CBool b)" by (simp add: classify_def)
next
  fix s x
  assume a: "fs filepath = Workbook (Worksheet title g) \<and>
      (\<forall>row\<in>set g. \<forall>c\<in>set row. \<not> foreign_bool c)"
    and s: "s \<in> set (r_sample_data (fst (analyze_excel fs filepath name)))"
    and x: "x \<in> set (s_data s)"
  from a have w: "fs filepath = Workbook (Worksheet title g)" by blast
  obtain k e where ke: "x = (k, e)" by (cases x)
  from s obtain i hs where "s_data s = extract_record hs (ws_row g i)"
    unfolding analyze_excel_headers(2) [where fs = fs and filepath = filepath, OF w] sample_rows_def by auto
  with x ke have "(k, e) \<in> set (extract_record hs (ws_row g i))" by simp
  with a have "e_type e \<noteq> ''bool'' \<and> e_type e \<noteq> ''boolean''"
    using record_tag_not_bool by blast
  with ke show "case x of (k, e) \<Rightarrow> e_type e \<noteq> ''bool'' \<and> e_type e \<noteq> ''boolean''" by simp
qed

theorem C10_bool_is_integer_witness:
  "get_type_name (CBool True) = ''integer'' \<and>
   map (\<lambda>c. fst (classify c)) (ws_row bool_grid 2) = [''string'', ''integer'', ''integer'', ''timedelta''] \<and>
   list_all (\<lambda>s. list_all (\<lambda>(k, e). e_type e \<noteq> ''bool'' \<and> e_type e \<noteq> ''boolean'') (s_data s))
     (r_sample_data (fst (analyze_excel (\<lambda>p. Workbook (Worksheet ''S'' bool_grid)) ''b.xlsx'' ''B'')))"
proof -
  have w: "(\<lambda>p. Workbook (Worksheet ''S'' bool_grid)) ''b.xlsx'' = Workbook (Worksheet ''S'' bool_grid)"
    by simp
  have nf: "\<forall>row\<in>set bool_grid. \<forall>c\<in>set row. \<not> foreign_bool c" by code_simp
  have tags: "map (\<lambda>c. fst (classify c)) (ws_row bool_grid 2)
      = [''string'', ''integer'', ''integer'', ''timedelta'']" by code_simp
  note t = C10_bool_is_integer [of True "\<lambda>p. Workbook (Worksheet ''S'' bool_grid)" "''b.xlsx''"
      "''S''" bool_grid "''B''"]
  from t w nf
  have "\<forall>s\<in>set (r_sample_data (fst (analyze_excel (\<lambda>p. Workbook (Worksheet ''S'' bool_grid)) ''b.xlsx'' ''B''))).
         \<forall>(k, e)\<in>set (s_data s). e_type e \<noteq> ''bool'' \<and> e_type e \<noteq> ''boolean''"
    by blast
  then have "list_all (\<lambda>s. list_all (\<lambda>(k, e). e_type e \<noteq> ''bool'' \<and> e_type e \<noteq> ''boolean'') (s_data s))
     (r_sample_data (fst (analyze_excel (\<lambda>p. Workbook (Worksheet ''S'' bool_grid)) ''b.xlsx'' ''B'')))"
    by (simp add: list_all_iff)
  moreover from t have "get_type_name (CBool True) = ''integer''" by blast
  ultimately show ?thesis using tags by simp
qed

section \<open>Faults and the batch\<close>








end
